theory Spec2Isabelle
  imports Main "HOL-Library.AList" "HOL-Library.Multiset" "HOL-Library.Sublist"
begin

section \<open>The data model of \<open>types.ts\<close>\<close>

text \<open>
  The numeric enum \<open>EventPriority\<close>: \<open>Low = 3\<close>, \<open>Normal = 2\<close>, \<open>High = 1\<close>,
  \<open>Critical = 0\<close>.
\<close>

datatype EventPriority = Low | Normal | High | Critical

fun priority_value :: "EventPriority \<Rightarrow> nat" where
  "priority_value Low = 3"
| "priority_value Normal = 2"
| "priority_value High = 1"
| "priority_value Critical = 0"

text \<open>
  A handler is a function object; the bus only calls it and compares it with \<open>===\<close>.
  The model names a function object by a number, so that \<open>===\<close> is equality of numbers.
  A handler returns, returns a promise (named by a number), or throws (the thrown error
  is named by its message).
\<close>

type_synonym EventHandler = nat

datatype 'd handler_arg = Data 'd | EventData string 'd

datatype handler_result = Returned | ReturnedPromise nat | Threw string

text \<open>
  \<open>EventFilter\<close>: four optional predicates (\<open>event\<close>, \<open>data\<close>, \<open>timestamp\<close>,
  \<open>filter\<close>); the fields carry the suffix \<open>_f\<close> because the history entries have
  fields of the same names. A predicate is a function of the caller: it returns a truth
  value (\<open>Inr\<close>) or throws (\<open>Inl\<close> the error).
\<close>

record 'd EventFilter =
  event_f :: "(string \<Rightarrow> string + bool) option"
  data_f :: "(string \<Rightarrow> 'd \<Rightarrow> string + bool) option"
  timestamp_f :: "(int \<Rightarrow> string + bool) option"
  filter_f :: "(string \<Rightarrow> 'd \<Rightarrow> string + bool) option"

text \<open>The elements of a named bucket, and of the wildcard list (with its optional filter).\<close>

record SubscriptionRecord =
  handler :: EventHandler
  priority :: EventPriority
  once :: bool

record 'd WildcardRecord = SubscriptionRecord +
  filter' :: "'d EventFilter option"

record 'd HistoryEntry =
  event :: string
  data :: 'd
  timestamp :: int

text \<open>
  \<open>Required<EventBusOptions>\<close>, the options a bus holds, and \<open>EventBusOptions\<close>, the
  argument of the constructor, where every field may be absent. \<open>onError\<close> is a callback
  \<open>(error, eventName) => void\<close> of the caller: it acts on the world outside the bus, and
  it returns (\<open>None\<close>) or throws (\<open>Some\<close> the error).
\<close>

type_synonym 'w callback = "string \<Rightarrow> string \<Rightarrow> 'w \<Rightarrow> string option \<times> 'w"

record 'w Options =
  asyncEventHandling :: bool
  catchErrors :: bool
  onError :: "'w callback"
  allowEmptyEvents :: bool
  maxHistorySize :: int

record 'w EventBusOptions =
  asyncEventHandling_opt :: "bool option"
  catchErrors_opt :: "bool option"
  onError_opt :: "'w callback option"
  allowEmptyEvents_opt :: "bool option"
  maxHistorySize_opt :: "int option"

text \<open>
  \<open>EventBusSnapshot\<close>. \<open>listenerCounts\<close> is a plain object: its own properties, in
  the order of their creation.
\<close>

record ('d, 'w) EventBusSnapshot =
  snap_eventNames :: "string list"
  snap_listenerCounts :: "(string \<times> int) list"
  snap_wildcardListenerCount :: int
  snap_history :: "'d HistoryEntry list"
  snap_options :: "'w Options"

text \<open>
  The private fields of the class \<open>EventBus\<close>. \<open>handlers\<close> is a \<open>Map\<close>, which keeps
  its keys in insertion order: an association list with distinct keys.
\<close>

record ('d, 'w) EventBus =
  handlers :: "(string \<times> SubscriptionRecord list) list"
  wildcardHandlers :: "'d WildcardRecord list"
  options :: "'w Options"
  errorHandler :: "'w callback"
  eventHistory :: "'d HistoryEntry list"
  this_maxHistorySize :: int

text \<open>
  What a call of a handler does is given by a behaviour: from the handler, its argument,
  the bus as the call finds it and the state of the world outside the bus (the closures'
  own variables) to the result of the call and the new world. A handler can read the bus;
  handlers that change the bus while an emit is running (that subscribe, unsubscribe or
  emit themselves) are outside this model.
\<close>

type_synonym ('d, 'w) behaviour =
  "EventHandler \<Rightarrow> 'd handler_arg \<Rightarrow> ('d, 'w) EventBus \<Rightarrow> 'w \<Rightarrow> handler_result \<times> 'w"

text \<open>
  What leaves \<open>emit\<close> and the other methods as an exception. The errors the bus raises
  itself are \<open>Error\<close> objects told apart by their message: the invalid event name and
  the event without subscribers (with its name). The others are thrown by the caller's
  code and pass through as they are: the error a handler threw, and the error
  \<open>onError\<close> or a filter predicate threw.
\<close>

datatype error =
  InvalidArgument | NoSubscribers string | HandlerError string | CallbackError string

section \<open>The pieces of the JavaScript library the class uses\<close>

text \<open>\<open>Map.get\<close>, \<open>has\<close>, \<open>set\<close> (in place for a known key, at the end for a new one),
  \<open>delete\<close> and \<open>keys\<close>.\<close>

definition Map_get :: "('k \<times> 'v) list \<Rightarrow> 'k \<Rightarrow> 'v option" where
  "Map_get m k = map_of m k"

definition Map_has :: "('k \<times> 'v) list \<Rightarrow> 'k \<Rightarrow> bool" where
  "Map_has m k = (map_of m k \<noteq> None)"

definition Map_set :: "('k \<times> 'v) list \<Rightarrow> 'k \<Rightarrow> 'v \<Rightarrow> ('k \<times> 'v) list" where
  "Map_set m k v = AList.update k v m"

definition Map_delete :: "('k \<times> 'v) list \<Rightarrow> 'k \<Rightarrow> ('k \<times> 'v) list" where
  "Map_delete m k = AList.delete k m"

definition Map_keys :: "('k \<times> 'v) list \<Rightarrow> 'k list" where
  "Map_keys m = map fst m"

text \<open>\<open>Array.findIndex\<close> (\<open>None\<close> for \<open>-1\<close>) and \<open>splice(index, 1)\<close>, which removes
  nothing when the index is past the end.\<close>

fun findIndex :: "('a \<Rightarrow> bool) \<Rightarrow> 'a list \<Rightarrow> nat option" where
  "findIndex P [] = None"
| "findIndex P (x # xs) = (if P x then Some 0 else map_option Suc (findIndex P xs))"

definition splice1 :: "nat \<Rightarrow> 'a list \<Rightarrow> 'a list" where
  "splice1 i xs = take i xs @ drop (Suc i) xs"

text \<open>
  \<open>String.trim\<close> removes white space and line terminators at both ends. Event names
  are strings of 8-bit characters here; of the characters \<open>trim\<close> removes, these are
  the ones below 256.
\<close>

definition isWhiteSpace :: "char \<Rightarrow> bool" where
  "isWhiteSpace c = (c \<in> set [CHR 0x09, CHR 0x0A, CHR 0x0B, CHR 0x0C, CHR 0x0D, CHR 0x20, CHR 0xA0])"

definition trim :: "string \<Rightarrow> string" where
  "trim s = rev (dropWhile isWhiteSpace (rev (dropWhile isWhiteSpace s)))"

text \<open>
  \<open>Object.fromEntries\<close> creates the properties in the order of the entries, and
  \<open>Object.entries\<close> lists them as every ordinary object does: the keys that are array
  indices (the canonical decimal form of a number up to \<open>2^32 - 2\<close>) first, in
  ascending numeric order, then the other keys in the order of their creation.
\<close>

definition isDigit :: "char \<Rightarrow> bool" where
  "isDigit c = (48 \<le> (of_char c :: nat) \<and> (of_char c :: nat) \<le> 57)"

definition digits_value :: "string \<Rightarrow> nat" where
  "digits_value s = foldl (\<lambda>a c. 10 * a + (of_char c - 48)) 0 s"

definition isArrayIndex :: "string \<Rightarrow> bool" where
  "isArrayIndex s =
     (s \<noteq> [] \<and> list_all isDigit s \<and> (if hd s = CHR ''0'' then s = ''0'' else True) \<and>
      digits_value s \<le> 4294967294)"

definition Object_fromEntries :: "(string \<times> 'v) list \<Rightarrow> (string \<times> 'v) list" where
  "Object_fromEntries es = fold (\<lambda>(k, v) obj. AList.update k v obj) es []"

definition Object_entries :: "(string \<times> 'v) list \<Rightarrow> (string \<times> 'v) list" where
  "Object_entries obj =
     sort_key (\<lambda>(k, v). digits_value k) (filter (\<lambda>(k, v). isArrayIndex k) obj) @
     filter (\<lambda>(k, v). \<not> isArrayIndex k) obj"

section \<open>The class \<open>EventBus\<close>\<close>

text \<open>
  The default \<open>onError\<close> writes to the console, which is no part of the world the
  handlers see.
\<close>

definition defaultErrorHandler :: "'w callback" where
  "defaultErrorHandler err ev w = (None, w)"

text \<open>
  The constructor. \<open>x !== false\<close> is true for an absent \<open>x\<close>; \<open>x || d\<close> is \<open>d\<close>
  for an absent \<open>x\<close> and for \<open>0\<close>.
\<close>

definition EventBus_options :: "'w EventBusOptions \<Rightarrow> 'w Options" where
  "EventBus_options opts =
     \<lparr> asyncEventHandling = (asyncEventHandling_opt opts \<noteq> Some False),
       catchErrors = (catchErrors_opt opts \<noteq> Some False),
       onError = (case onError_opt opts of Some f \<Rightarrow> f | None \<Rightarrow> defaultErrorHandler),
       allowEmptyEvents = (allowEmptyEvents_opt opts \<noteq> Some False),
       maxHistorySize = (case maxHistorySize_opt opts of
                           None \<Rightarrow> 1000
                         | Some n \<Rightarrow> if n = 0 then 1000 else n) \<rparr>"

definition EventBus_new :: "'w EventBusOptions \<Rightarrow> ('d, 'w) EventBus" where
  "EventBus_new opts =
     \<lparr> handlers = [],
       wildcardHandlers = [],
       options = EventBus_options opts,
       errorHandler = onError (EventBus_options opts),
       eventHistory = [],
       this_maxHistorySize = maxHistorySize (EventBus_options opts) \<rparr>"

text \<open>The constructor called with no argument.\<close>

definition no_options :: "'w EventBusOptions" where
  "no_options =
     \<lparr> asyncEventHandling_opt = None, catchErrors_opt = None, onError_opt = None,
       allowEmptyEvents_opt = None, maxHistorySize_opt = None \<rparr>"

text \<open>
  \<open>sortHandlersByPriority\<close>: \<open>Array.sort\<close> with the comparator
  \<open>a.priority - b.priority\<close>; the sort is stable. It is used on both kinds of record.
\<close>

definition sortHandlersByPriority ::
  "'a SubscriptionRecord_scheme list \<Rightarrow> 'a SubscriptionRecord_scheme list" where
  "sortHandlersByPriority hs = sort_key (\<lambda>h. priority_value (priority h)) hs"

definition validateEventName :: "string \<Rightarrow> error + unit" where
  "validateEventName eventName =
     (if eventName = [] \<or> trim eventName = [] then Inl InvalidArgument else Inr ())"

text \<open>\<open>this.handlers.get(eventName) || []\<close>: the bucket of a name, empty for an unknown name.\<close>

definition bucket :: "('d, 'w) EventBus \<Rightarrow> string \<Rightarrow> SubscriptionRecord list" where
  "bucket b eventName = (case Map_get (handlers b) eventName of Some hs \<Rightarrow> hs | None \<Rightarrow> [])"

text \<open>
  \<open>on\<close> and \<open>once\<close>. \<open>validateHandler\<close> accepts every function, and a handler
  is one by its type. The handle they return calls \<open>off(eventName, handler)\<close>.
\<close>

definition subscribe_record ::
  "bool \<Rightarrow> ('d, 'w) EventBus \<Rightarrow> string \<Rightarrow> EventHandler \<Rightarrow> EventPriority \<Rightarrow>
   error + ('d, 'w) EventBus" where
  "subscribe_record flag b eventName h p =
     (case validateEventName eventName of
        Inl e \<Rightarrow> Inl e
      | Inr _ \<Rightarrow>
          let hs = bucket b eventName
          in Inr (b\<lparr>handlers := Map_set (handlers b) eventName
                    (sortHandlersByPriority
                       (hs @ [\<lparr>handler = h, priority = p, once = flag\<rparr>]))\<rparr>))"

definition on ::
  "('d, 'w) EventBus \<Rightarrow> string \<Rightarrow> EventHandler \<Rightarrow> EventPriority \<Rightarrow> error + ('d, 'w) EventBus" where
  "on b eventName h p = subscribe_record False b eventName h p"

definition once' ::
  "('d, 'w) EventBus \<Rightarrow> string \<Rightarrow> EventHandler \<Rightarrow> EventPriority \<Rightarrow> error + ('d, 'w) EventBus" where
  "once' b eventName h p = subscribe_record True b eventName h p"

text \<open>
  \<open>onAny\<close>: the second argument is absent, a priority (a number) or a filter (an object).
  The handle it returns removes the first wildcard record with this handler
  (\<open>unsubscribeAny\<close>).
\<close>

datatype 'd onAny_options = NoOptions | Priority EventPriority | Filter "'d EventFilter"

definition onAny ::
  "('d, 'w) EventBus \<Rightarrow> EventHandler \<Rightarrow> 'd onAny_options \<Rightarrow> ('d, 'w) EventBus" where
  "onAny b h opts =
     (let p = (case opts of Priority p \<Rightarrow> p | _ \<Rightarrow> Normal);
          f = (case opts of Filter f \<Rightarrow> Some f | _ \<Rightarrow> None)
      in b\<lparr>wildcardHandlers := sortHandlersByPriority
             (wildcardHandlers b @ [\<lparr>handler = h, priority = p, once = False, filter' = f\<rparr>])\<rparr>)"

definition unsubscribeAny :: "('d, 'w) EventBus \<Rightarrow> EventHandler \<Rightarrow> ('d, 'w) EventBus" where
  "unsubscribeAny b h =
     (case findIndex (\<lambda>r. handler r = h) (wildcardHandlers b) of
        Some i \<Rightarrow> b\<lparr>wildcardHandlers := splice1 i (wildcardHandlers b)\<rparr>
      | None \<Rightarrow> b)"

definition off ::
  "('d, 'w) EventBus \<Rightarrow> string \<Rightarrow> EventHandler option \<Rightarrow> error + ('d, 'w) EventBus" where
  "off b eventName h =
     (case validateEventName eventName of
        Inl e \<Rightarrow> Inl e
      | Inr _ \<Rightarrow>
          (case Map_get (handlers b) eventName of
             None \<Rightarrow> Inr b
           | Some hs \<Rightarrow>
               (case h of
                  None \<Rightarrow> Inr (b\<lparr>handlers := Map_delete (handlers b) eventName\<rparr>)
                | Some h' \<Rightarrow>
                    let hs' = (case findIndex (\<lambda>r. handler r = h') hs of
                                 Some i \<Rightarrow> splice1 i hs
                               | None \<Rightarrow> hs)
                    in if hs' = []
                       then Inr (b\<lparr>handlers := Map_delete (handlers b) eventName\<rparr>)
                       else Inr (b\<lparr>handlers := Map_set (handlers b) eventName hs'\<rparr>))))"

text \<open>\<open>recordEvent\<close>; the time \<open>Date.now()\<close> reads is an argument.\<close>

definition recordEvent ::
  "('d, 'w) EventBus \<Rightarrow> string \<Rightarrow> 'd \<Rightarrow> int \<Rightarrow> ('d, 'w) EventBus" where
  "recordEvent b ev d now =
     (let h = eventHistory b @ [\<lparr>event = ev, data = d, timestamp = now\<rparr>]
      in b\<lparr>eventHistory := (if int (length h) > this_maxHistorySize b then tl h else h)\<rparr>)"

section \<open>\<open>emit\<close>\<close>

text \<open>
  The local variables of one call of \<open>emit\<close>: the indices collected for the once
  records, the promises collected, and the world. Two more fields record what the call
  did to the outside: \<open>calls\<close>, every handler call in order (the handler, its argument
  and how the call ended), and \<open>reported\<close>, every call of \<open>errorHandler\<close> in order (the
  error and the event name).
\<close>

record ('d, 'w) pass =
  onceHandlerIndices :: "nat list"
  onceWildcardIndices :: "nat list"
  handlerPromises :: "nat list"
  calls :: "(EventHandler \<times> 'd handler_arg \<times> handler_result) list"
  reported :: "(string \<times> string) list"
  world :: 'w

definition pass_init :: "'w \<Rightarrow> ('d, 'w) pass" where
  "pass_init w =
     \<lparr> onceHandlerIndices = [], onceWildcardIndices = [], handlerPromises = [],
       calls = [], reported = [], world = w \<rparr>"

text \<open>
  The \<open>try\<close> block both loops of \<open>emit\<close> contain: call the handler; keep the promise
  it returns when \<open>asyncEventHandling\<close> is set; when it throws, call \<open>errorHandler\<close>
  if \<open>catchErrors\<close> is set, and rethrow otherwise. The call of \<open>errorHandler\<close> stands
  in the \<open>catch\<close> block, so what it throws leaves \<open>emit\<close> too. The second component
  is the exception that leaves the block.
\<close>

definition invoke ::
  "('d, 'w) behaviour \<Rightarrow> ('d, 'w) EventBus \<Rightarrow> string \<Rightarrow> EventHandler \<Rightarrow> 'd handler_arg \<Rightarrow>
   ('d, 'w) pass \<Rightarrow> ('d, 'w) pass \<times> error option" where
  "invoke beh b eventName h arg st =
     (case beh h arg b (world st) of
        (res, w') \<Rightarrow>
          let st1 = st\<lparr>calls := calls st @ [(h, arg, res)], world := w'\<rparr>
          in (case res of
                Returned \<Rightarrow> (st1, None)
              | ReturnedPromise p \<Rightarrow>
                  (if asyncEventHandling (options b)
                   then st1\<lparr>handlerPromises := handlerPromises st1 @ [p]\<rparr>
                   else st1, None)
              | Threw err \<Rightarrow>
                  if catchErrors (options b)
                  then (case errorHandler b err eventName w' of
                          (failure, w'') \<Rightarrow>
                            (st1\<lparr>reported := reported st1 @ [(err, eventName)], world := w''\<rparr>,
                             map_option CallbackError failure))
                  else (st1, Some (HandlerError err))))"

text \<open>The first loop, over the copy of the named bucket; \<open>live\<close> is the bucket itself.\<close>

fun runHandlers ::
  "('d, 'w) behaviour \<Rightarrow> ('d, 'w) EventBus \<Rightarrow> string \<Rightarrow> 'd \<Rightarrow> SubscriptionRecord list \<Rightarrow>
   SubscriptionRecord list \<Rightarrow> ('d, 'w) pass \<Rightarrow> ('d, 'w) pass \<times> error option" where
  "runHandlers beh b eventName d live [] st = (st, None)"
| "runHandlers beh b eventName d live (r # rs) st =
     (let st1 = (if once r
                 then (case findIndex (\<lambda>h. handler h = handler r) live of
                         Some i \<Rightarrow> st\<lparr>onceHandlerIndices := onceHandlerIndices st @ [i]\<rparr>
                       | None \<Rightarrow> st)
                 else st)
      in (case invoke beh b eventName (handler r) (Data d) st1 of
            (st2, Some err) \<Rightarrow> (st2, Some err)
          | (st2, None) \<Rightarrow> runHandlers beh b eventName d live rs st2))"

text \<open>
  The filter test of the second loop: the event predicate, then the data predicate, each
  only when it is there. A record is skipped when one of them returns false
  (\<open>Inr False\<close>); the data predicate is not called then. The test stands outside the
  \<open>try\<close> block, so what a predicate throws (\<open>Inl\<close>) leaves \<open>emit\<close>.
\<close>

definition passesFilter :: "'d WildcardRecord \<Rightarrow> string \<Rightarrow> 'd \<Rightarrow> string + bool" where
  "passesFilter r eventName d =
     (case filter' r of
        None \<Rightarrow> Inr True
      | Some f \<Rightarrow>
          (case (case event_f f of Some p \<Rightarrow> p eventName | None \<Rightarrow> Inr True) of
             Inl err \<Rightarrow> Inl err
           | Inr False \<Rightarrow> Inr False
           | Inr True \<Rightarrow> (case data_f f of Some p \<Rightarrow> p eventName d | None \<Rightarrow> Inr True)))"

text \<open>The second loop, over the copy of the wildcard list; \<open>live\<close> is the list itself.\<close>

fun runWildcardHandlers ::
  "('d, 'w) behaviour \<Rightarrow> ('d, 'w) EventBus \<Rightarrow> string \<Rightarrow> 'd \<Rightarrow> 'd WildcardRecord list \<Rightarrow>
   'd WildcardRecord list \<Rightarrow> ('d, 'w) pass \<Rightarrow> ('d, 'w) pass \<times> error option" where
  "runWildcardHandlers beh b eventName d live [] st = (st, None)"
| "runWildcardHandlers beh b eventName d live (r # rs) st =
     (case passesFilter r eventName d of
        Inl err \<Rightarrow> (st, Some (CallbackError err))
      | Inr False \<Rightarrow> runWildcardHandlers beh b eventName d live rs st
      | Inr True \<Rightarrow>
          let st1 = (if once r
                     then (case findIndex (\<lambda>h. handler h = handler r) live of
                             Some i \<Rightarrow> st\<lparr>onceWildcardIndices := onceWildcardIndices st @ [i]\<rparr>
                           | None \<Rightarrow> st)
                     else st)
          in (case invoke beh b eventName (handler r) (EventData eventName d) st1 of
                (st2, Some err) \<Rightarrow> (st2, Some err)
              | (st2, None) \<Rightarrow> runWildcardHandlers beh b eventName d live rs st2))"

text \<open>Sort the indices in descending order and splice each out.\<close>

definition removeIndices :: "nat list \<Rightarrow> 'a list \<Rightarrow> 'a list" where
  "removeIndices idxs xs = fold splice1 (rev (sort idxs)) xs"

text \<open>
  \<open>emit\<close> returns what the caller gets (an error, nothing, or the promises handed to
  \<open>Promise.all\<close>), the bus afterwards, and the local state of the call with its two
  records of effects. A \<open>throw\<close> leaves the function at once: nothing after it runs.
\<close>

definition emit ::
  "('d, 'w) behaviour \<Rightarrow> ('d, 'w) EventBus \<Rightarrow> string \<Rightarrow> 'd \<Rightarrow> int \<Rightarrow> 'w \<Rightarrow>
   (error + nat list option) \<times> ('d, 'w) EventBus \<times> ('d, 'w) pass" where
  "emit beh b eventName d now w =
     (case validateEventName eventName of
        Inl e \<Rightarrow> (Inl e, b, pass_init w)
      | Inr _ \<Rightarrow>
          let b1 = recordEvent b eventName d now;
              hs = bucket b1 eventName
          in if \<not> allowEmptyEvents (options b1) \<and> hs = [] \<and> wildcardHandlers b1 = []
             then (Inl (NoSubscribers eventName), b1, pass_init w)
             else
               (case runHandlers beh b1 eventName d hs hs (pass_init w) of
                  (st1, Some err) \<Rightarrow> (Inl err, b1, st1)
                | (st1, None) \<Rightarrow>
                    (case runWildcardHandlers beh b1 eventName d
                            (wildcardHandlers b1) (wildcardHandlers b1) st1 of
                       (st2, Some err) \<Rightarrow> (Inl err, b1, st2)
                     | (st2, None) \<Rightarrow>
                         let hs' = removeIndices (onceHandlerIndices st2) hs;
                             ws' = removeIndices (onceWildcardIndices st2) (wildcardHandlers b1);
                             m1 = (if Map_has (handlers b1) eventName
                                   then Map_set (handlers b1) eventName hs'
                                   else handlers b1);
                             m2 = (if hs' = [] \<and> Map_has m1 eventName
                                   then Map_delete m1 eventName
                                   else m1)
                         in (Inr (if asyncEventHandling (options b1) \<and> handlerPromises st2 \<noteq> []
                                  then Some (handlerPromises st2) else None),
                             b1\<lparr>handlers := m2, wildcardHandlers := ws'\<rparr>, st2))))"

section \<open>Queries, \<open>clear\<close>, snapshots\<close>

definition listenerCount :: "('d, 'w) EventBus \<Rightarrow> string \<Rightarrow> error + nat" where
  "listenerCount b eventName =
     (case validateEventName eventName of
        Inl e \<Rightarrow> Inl e
      | Inr _ \<Rightarrow>
          Inr (case Map_get (handlers b) eventName of Some hs \<Rightarrow> length hs | None \<Rightarrow> 0))"

definition eventNames :: "('d, 'w) EventBus \<Rightarrow> string list" where
  "eventNames b = Map_keys (handlers b)"

definition wildcardListenerCount :: "('d, 'w) EventBus \<Rightarrow> nat" where
  "wildcardListenerCount b = length (wildcardHandlers b)"

definition hasListeners :: "('d, 'w) EventBus \<Rightarrow> string \<Rightarrow> error + bool" where
  "hasListeners b eventName =
     (case validateEventName eventName of
        Inl e \<Rightarrow> Inl e
      | Inr _ \<Rightarrow>
          Inr ((Map_has (handlers b) eventName \<and>
                (case Map_get (handlers b) eventName of Some hs \<Rightarrow> length hs > 0 | None \<Rightarrow> False)) \<or>
               length (wildcardHandlers b) > 0))"

definition clear :: "('d, 'w) EventBus \<Rightarrow> ('d, 'w) EventBus" where
  "clear b = b\<lparr>handlers := [], wildcardHandlers := []\<rparr>"

definition getSnapshot :: "('d, 'w) EventBus \<Rightarrow> ('d, 'w) EventBusSnapshot" where
  "getSnapshot b =
     \<lparr> snap_eventNames = Map_keys (handlers b),
       snap_listenerCounts =
         Object_fromEntries (map (\<lambda>(ev, hs). (ev, int (length hs))) (handlers b)),
       snap_wildcardListenerCount = int (length (wildcardHandlers b)),
       snap_history = eventHistory b,
       snap_options = options b \<rparr>"

definition restoreFromSnapshot ::
  "('d, 'w) EventBus \<Rightarrow> ('d, 'w) EventBusSnapshot \<Rightarrow> ('d, 'w) EventBus" where
  "restoreFromSnapshot b s =
     (let b1 = clear b;
          b2 = b1\<lparr>options := snap_options s, eventHistory := snap_history s\<rparr>
      in b2\<lparr>handlers :=
              fold (\<lambda>(eventName, count) m. if count > 0 then Map_set m eventName [] else m)
                   (Object_entries (snap_listenerCounts s)) (handlers b2)\<rparr>)"

definition getHistory :: "('d, 'w) EventBus \<Rightarrow> 'd HistoryEntry list" where
  "getHistory b = eventHistory b"

definition clearHistory :: "('d, 'w) EventBus \<Rightarrow> ('d, 'w) EventBus" where
  "clearHistory b = b\<lparr>eventHistory := []\<rparr>"

section \<open>Sequences of calls\<close>

text \<open>
  The calls that change a bus. \<open>Off\<close> with a handler is also what the handle of
  \<open>on\<close> and \<open>once\<close> does, \<open>UnsubscribeAny\<close> is the handle of \<open>onAny\<close>. A call
  that throws leaves the bus as it is at the throw.
\<close>

datatype ('d, 'w) call =
    On string EventHandler EventPriority
  | Once string EventHandler EventPriority
  | OnAny EventHandler "'d onAny_options"
  | Off string "EventHandler option"
  | UnsubscribeAny EventHandler
  | Emit string 'd int
  | Clear
  | ClearHistory
  | RestoreFromSnapshot "('d, 'w) EventBusSnapshot"

fun step ::
  "('d, 'w) behaviour \<Rightarrow> ('d, 'w) EventBus \<times> 'w \<Rightarrow> ('d, 'w) call \<Rightarrow> ('d, 'w) EventBus \<times> 'w" where
  "step beh (b, w) (On n h p) = (case on b n h p of Inl e \<Rightarrow> (b, w) | Inr b' \<Rightarrow> (b', w))"
| "step beh (b, w) (Once n h p) = (case once' b n h p of Inl e \<Rightarrow> (b, w) | Inr b' \<Rightarrow> (b', w))"
| "step beh (b, w) (OnAny h opts) = (onAny b h opts, w)"
| "step beh (b, w) (Off n h) = (case off b n h of Inl e \<Rightarrow> (b, w) | Inr b' \<Rightarrow> (b', w))"
| "step beh (b, w) (UnsubscribeAny h) = (unsubscribeAny b h, w)"
| "step beh (b, w) (Emit n d now) = (case emit beh b n d now w of (r, b', st) \<Rightarrow> (b', world st))"
| "step beh (b, w) Clear = (clear b, w)"
| "step beh (b, w) ClearHistory = (clearHistory b, w)"
| "step beh (b, w) (RestoreFromSnapshot s) = (restoreFromSnapshot b s, w)"

definition run ::
  "('d, 'w) behaviour \<Rightarrow> ('d, 'w) EventBus \<times> 'w \<Rightarrow> ('d, 'w) call list \<Rightarrow> ('d, 'w) EventBus \<times> 'w" where
  "run beh s cs = foldl (step beh) s cs"

fun isRestore :: "('d, 'w) call \<Rightarrow> bool" where
  "isRestore (RestoreFromSnapshot s) = True"
| "isRestore c = False"

text \<open>The handlers a call of \<open>emit\<close> called, in order.\<close>

definition invoked :: "('d, 'w) pass \<Rightarrow> EventHandler list" where
  "invoked st = map fst (calls st)"

text \<open>
  The pairs of handler and argument one emit is to call, in order: the records of the
  named bucket, then the wildcard records the filter test does not skip. (A test that
  throws stops the pass at its record.)
\<close>

definition matching ::
  "('d, 'w) EventBus \<Rightarrow> string \<Rightarrow> 'd \<Rightarrow> (EventHandler \<times> 'd handler_arg) list" where
  "matching b eventName d =
     map (\<lambda>r. (handler r, Data d)) (bucket b eventName) @
     map (\<lambda>r. (handler r, EventData eventName d))
         (filter (\<lambda>r. passesFilter r eventName d \<noteq> Inr False) (wildcardHandlers b))"

definition callsig ::
  "EventHandler \<times> 'd handler_arg \<times> handler_result \<Rightarrow> EventHandler \<times> 'd handler_arg" where
  "callsig c = (fst c, fst (snd c))"

fun thrown :: "handler_result \<Rightarrow> string option" where
  "thrown (Threw err) = Some err"
| "thrown r = None"

text \<open>
  The last \<open>k\<close> elements of a list, and the history entries a sequence of calls has
  recorded since its last \<open>clearHistory\<close>: one for each \<open>emit\<close> with a valid name.
\<close>

definition most_recent :: "nat \<Rightarrow> 'a list \<Rightarrow> 'a list" where
  "most_recent k xs = drop (length xs - k) xs"

fun recorded_step :: "'d HistoryEntry list \<Rightarrow> ('d, 'w) call \<Rightarrow> 'd HistoryEntry list" where
  "recorded_step es (Emit n d now) =
     (if validateEventName n = Inr () then es @ [\<lparr>event = n, data = d, timestamp = now\<rparr>] else es)"
| "recorded_step es ClearHistory = []"
| "recorded_step es c = es"

definition recorded :: "('d, 'w) call list \<Rightarrow> 'd HistoryEntry list" where
  "recorded cs = foldl recorded_step [] cs"

text \<open>No key of the map has an empty bucket.\<close>

definition nonempty_buckets :: "('k \<times> 'a list) list \<Rightarrow> bool" where
  "nonempty_buckets m = (\<forall>k hs. Map_get m k = Some hs \<longrightarrow> hs \<noteq> [])"

text \<open>The errors thrown in a list of calls, in order.\<close>

fun throws :: "(EventHandler \<times> 'd handler_arg \<times> handler_result) list \<Rightarrow> string list" where
  "throws [] = []"
| "throws (c # cs) = (case thrown (snd (snd c)) of Some err \<Rightarrow> err # throws cs | None \<Rightarrow> throws cs)"

text \<open>
  The two loops of \<open>emit\<close> one after the other, from the fresh local state. A pass is
  silent when nothing was reported and no call threw, except the last one when the pass
  stopped with the error of a handler.
\<close>

definition runPass ::
  "('d, 'w) behaviour \<Rightarrow> ('d, 'w) EventBus \<Rightarrow> string \<Rightarrow> 'd \<Rightarrow> 'w \<Rightarrow>
   ('d, 'w) pass \<times> error option" where
  "runPass beh b n d w =
     (case runHandlers beh b n d (bucket b n) (bucket b n) (pass_init w) of
        (st1, Some err) \<Rightarrow> (st1, Some err)
      | (st1, None) \<Rightarrow>
          runWildcardHandlers beh b n d (wildcardHandlers b) (wildcardHandlers b) st1)"


text \<open>
  The error callback and the filter predicates return: \<open>errorHandler\<close> does not throw
  for this event, and no filter test of the wildcard list throws for it.
\<close>

definition errorHandler_returns :: "('d, 'w) EventBus \<Rightarrow> string \<Rightarrow> bool" where
  "errorHandler_returns b n = (\<forall>err w. fst (errorHandler b err n w) = None)"

definition filters_return :: "('d, 'w) EventBus \<Rightarrow> string \<Rightarrow> 'd \<Rightarrow> bool" where
  "filters_return b n d = (\<forall>r \<in> set (wildcardHandlers b). \<forall>err. passesFilter r n d \<noteq> Inl err)"



section \<open>Example buses\<close>

text \<open>Handlers that all return; a filter that lets no event pass.\<close>

definition quiet :: "(nat, unit) behaviour" where
  "quiet h a b w = (Returned, w)"

definition rejecting :: "nat EventFilter" where
  "rejecting =
     \<lparr> event_f = Some (\<lambda>n. Inr False), data_f = None, timestamp_f = None, filter_f = None \<rparr>"

text \<open>\<open>new EventBus({allowEmptyEvents: false})\<close> with one wildcard handler behind the
  filter.\<close>

definition strict_filtered_bus :: "(nat, unit) EventBus" where
  "strict_filtered_bus =
     onAny (EventBus_new (no_options\<lparr>allowEmptyEvents_opt := Some False\<rparr>)) 1 (Filter rejecting)"

text \<open>\<open>new EventBus()\<close> with one wildcard handler behind the filter.\<close>

definition filtered_bus :: "(nat, unit) EventBus" where
  "filtered_bus = onAny (EventBus_new no_options) 1 (Filter rejecting)"

text \<open>\<open>new EventBus({maxHistorySize: -1})\<close>.\<close>

definition negative_bus :: "(nat, unit) EventBus" where
  "negative_bus = EventBus_new (no_options\<lparr>maxHistorySize_opt := Some (- 1)\<rparr>)"

text \<open>\<open>new EventBus({allowEmptyEvents: false})\<close>, with no subscriber.\<close>

definition strict_bus :: "(nat, unit) EventBus" where
  "strict_bus = EventBus_new (no_options\<lparr>allowEmptyEvents_opt := Some False\<rparr>)"

text \<open>
  Three buses with small bounds: the first emits once; the second (bound 2) restores the
  snapshot of the first and emits once; the third (bound 1) restores the snapshot of the
  second.
\<close>

definition bound :: "int \<Rightarrow> unit EventBusOptions" where
  "bound k = no_options\<lparr>maxHistorySize_opt := Some k\<rparr>"

definition first_bus :: "(nat, unit) EventBus" where
  "first_bus = fst (run quiet (EventBus_new (bound 1), ()) [Emit ''a'' 0 0])"

definition second_bus :: "(nat, unit) EventBus" where
  "second_bus =
     fst (run quiet (EventBus_new (bound 2), ())
            [RestoreFromSnapshot (getSnapshot first_bus), Emit ''b'' 0 0])"

definition third_bus :: "(nat, unit) EventBus" where
  "third_bus =
     fst (run quiet (EventBus_new (bound 1), ()) [RestoreFromSnapshot (getSnapshot second_bus)])"

text \<open>
  \<open>new EventBus()\<close> with one handler on the event \<open>a\<close>, and a fresh bus that restored
  its snapshot.
\<close>

definition subscribed_bus :: "(nat, unit) EventBus" where
  "subscribed_bus = fst (run quiet (EventBus_new no_options, ()) [On ''a'' 1 Normal])"

definition restored_bus :: "(nat, unit) EventBus" where
  "restored_bus =
     fst (run quiet (EventBus_new no_options, ()) [RestoreFromSnapshot (getSnapshot subscribed_bus)])"











text \<open>
  \<open>new EventBus()\<close> where the same function is subscribed with \<open>on\<close> and then with
  \<open>once\<close>; handlers of which number 2 throws; and \<open>new EventBus({catchErrors: false})\<close>
  with a once handler before the handler that throws.
\<close>

definition faulty :: "(nat, unit) behaviour" where
  "faulty h a b w = (if h = 2 then Threw ''boom'' else Returned, w)"

definition shared_bus :: "(nat, unit) EventBus" where
  "shared_bus =
     fst (run quiet (EventBus_new no_options, ()) [On ''x'' 1 Critical, Once ''x'' 1 Normal])"

definition abort_bus :: "(nat, unit) EventBus" where
  "abort_bus =
     fst (run faulty (EventBus_new (no_options\<lparr>catchErrors_opt := Some False\<rparr>), ())
            [Once ''x'' 1 High, On ''x'' 2 Normal])"

section \<open>Facts about the library pieces and the loops\<close>

lemmas eval_defs =
  run_def on_def once'_def subscribe_record_def onAny_def off_def unsubscribeAny_def
  validateEventName_def trim_def isWhiteSpace_def bucket_def
  Map_get_def Map_set_def Map_has_def Map_delete_def Map_keys_def
  sortHandlersByPriority_def emit_def recordEvent_def
  EventBus_new_def EventBus_options_def no_options_def pass_init_def invoke_def
  defaultErrorHandler_def
  removeIndices_def splice1_def invoked_def passesFilter_def
  listenerCount_def hasListeners_def eventNames_def wildcardListenerCount_def
  clear_def clearHistory_def getHistory_def getSnapshot_def restoreFromSnapshot_def
  Object_fromEntries_def Object_entries_def isArrayIndex_def isDigit_def digits_value_def
  matching_def callsig_def

lemma runWildcardHandlers_none_pass:
  "\<forall>r \<in> set rs. passesFilter r n d = Inr False \<Longrightarrow>
   runWildcardHandlers beh b n d live rs st = (st, None)"
  by (induction rs) simp_all

lemma emit_invalid:
  "validateEventName n = Inl e \<Longrightarrow> emit beh b n d now w = (Inl e, b, pass_init w)"
  by (simp add: emit_def)

lemma validateEventName_cases:
  "validateEventName n = Inl InvalidArgument \<or> validateEventName n = Inr ()"
  by (simp add: validateEventName_def)

lemma emit_history:
  "validateEventName n = Inr () \<Longrightarrow>
   eventHistory (fst (snd (emit beh b n d now w))) = eventHistory (recordEvent b n d now)"
  by (simp add: emit_def Let_def split: prod.splits option.splits)

lemma fields_recordEvent [simp]:
  "handlers (recordEvent b n d now) = handlers b"
  "wildcardHandlers (recordEvent b n d now) = wildcardHandlers b"
  "options (recordEvent b n d now) = options b"
  "errorHandler (recordEvent b n d now) = errorHandler b"
  "this_maxHistorySize (recordEvent b n d now) = this_maxHistorySize b"
  "bucket (recordEvent b n d now) m = bucket b m"
  by (simp_all add: recordEvent_def Let_def bucket_def)

lemma emit_fields [simp]:
  "options (fst (snd (emit beh b n d now w))) = options b"
  "this_maxHistorySize (fst (snd (emit beh b n d now w))) = this_maxHistorySize b"
  "errorHandler (fst (snd (emit beh b n d now w))) = errorHandler b"
  by (auto simp: emit_def Let_def split: sum.splits prod.splits option.splits)

lemma emit_history_any:
  "eventHistory (fst (snd (emit beh b n d now w))) =
     (if validateEventName n = Inr () then eventHistory (recordEvent b n d now) else eventHistory b)"
  using validateEventName_cases [of n] by (auto simp: emit_history emit_invalid)

lemma step_history:
  "\<not> isRestore c \<Longrightarrow>
   this_maxHistorySize (fst (step beh (b, w) c)) = this_maxHistorySize b \<and>
   options (fst (step beh (b, w) c)) = options b \<and>
   eventHistory (fst (step beh (b, w) c)) =
     (case c of
        Emit n d now \<Rightarrow> if validateEventName n = Inr () then eventHistory (recordEvent b n d now)
                        else eventHistory b
      | ClearHistory \<Rightarrow> []
      | _ \<Rightarrow> eventHistory b)"
proof (cases c)
  case (Emit n d now)
  then show ?thesis
    by (simp add: emit_history_any split: prod.splits)
      (metis emit_fields emit_history_any fst_conv snd_conv)
qed (auto simp: on_def once'_def subscribe_record_def off_def onAny_def unsubscribeAny_def
      clear_def clearHistory_def Let_def split: sum.splits option.splits)

lemma most_recent_push:
  assumes "1 \<le> M"
  shows "(let h = most_recent (nat M) es @ [e] in if int (length h) > M then tl h else h) =
         most_recent (nat M) (es @ [e])"
proof (cases "length es < nat M")
  case True
  then show ?thesis by (auto simp: most_recent_def Let_def)
next
  case False
  define k where "k = nat M"
  define j where "j = length es - k"
  from False assms have k: "1 \<le> k" "k \<le> length es" "int k = M"
    by (simp_all add: k_def)
  then have j: "Suc j \<le> length es" "length es - j = k" "Suc (length es) - k = Suc j"
    by (simp_all add: j_def)
  have ne: "drop j es \<noteq> []" using j by simp
  have "tl (drop j es @ [e]) = drop (Suc j) es @ [e]"
    using ne by (simp add: tl_drop drop_Suc)
  moreover have "most_recent k (es @ [e]) = drop (Suc j) es @ [e]"
    using j by (simp add: most_recent_def)
  moreover have "most_recent k es = drop j es"
    by (simp add: most_recent_def j_def)
  moreover have "int (length (drop j es @ [e])) > M"
    using j k by simp
  ultimately show ?thesis
    by (simp add: Let_def k_def [symmetric])
qed

lemma run_snoc: "run beh s (cs @ [c]) = step beh (run beh s cs) c"
  by (simp add: run_def)

lemma recorded_snoc: "recorded (cs @ [c]) = recorded_step (recorded cs) c"
  by (simp add: recorded_def)

lemma recordEvent_most_recent:
  assumes "1 \<le> this_maxHistorySize b"
    and "eventHistory b = most_recent (nat (this_maxHistorySize b)) es"
  shows "eventHistory (recordEvent b n d now) =
         most_recent (nat (this_maxHistorySize b)) (es @ [\<lparr>event = n, data = d, timestamp = now\<rparr>])"
  using most_recent_push [OF assms(1), of es "\<lparr>event = n, data = d, timestamp = now\<rparr>"] assms(2)
  by (simp add: recordEvent_def Let_def)

lemma history_invariant:
  assumes "\<forall>c \<in> set cs. \<not> isRestore c" and "1 \<le> maxHistorySize (EventBus_options opts)"
  shows "this_maxHistorySize (fst (run beh (EventBus_new opts, w) cs)) = maxHistorySize (EventBus_options opts) \<and>
         options (fst (run beh (EventBus_new opts, w) cs)) = EventBus_options opts \<and>
         eventHistory (fst (run beh (EventBus_new opts, w) cs)) =
           most_recent (nat (maxHistorySize (EventBus_options opts))) (recorded cs)"
  using assms(1)
proof (induction cs rule: rev_induct)
  case Nil
  show ?case by (simp add: run_def EventBus_new_def recorded_def most_recent_def)
next
  case (snoc c cs)
  obtain b' w' where r: "run beh (EventBus_new opts, w) cs = (b', w')"
    by (cases "run beh (EventBus_new opts, w) cs")
  from snoc r have ih: "this_maxHistorySize b' = maxHistorySize (EventBus_options opts)"
    "options b' = EventBus_options opts"
    "eventHistory b' = most_recent (nat (maxHistorySize (EventBus_options opts))) (recorded cs)"
    by simp_all
  from snoc.prems have nr: "\<not> isRestore c" by simp
  note sh = step_history [OF nr, of beh b' w']
  show ?case
  proof (cases c)
    case (Emit n d now)
    show ?thesis
    proof (cases "validateEventName n = Inr ()")
      case True
      have "eventHistory (recordEvent b' n d now) =
            most_recent (nat (this_maxHistorySize b')) (recorded cs @ [\<lparr>event = n, data = d, timestamp = now\<rparr>])"
        by (rule recordEvent_most_recent) (use assms(2) ih in simp_all)
      with sh ih True Emit r show ?thesis
        by (simp add: run_snoc recorded_snoc)
    next
      case False
      with sh ih Emit r show ?thesis
        by (simp add: run_snoc recorded_snoc)
    qed
  next
    case ClearHistory
    with sh ih r show ?thesis
      by (simp add: run_snoc recorded_snoc most_recent_def)
  qed (use sh ih r nr in \<open>simp_all add: run_snoc recorded_snoc\<close>)
qed

lemma sortHandlersByPriority_Nil [simp]: "sortHandlersByPriority hs = [] \<longleftrightarrow> hs = []"
  by (metis length_0_conv length_sort sortHandlersByPriority_def)

lemma nonempty_set: "nonempty_buckets m \<Longrightarrow> hs \<noteq> [] \<Longrightarrow> nonempty_buckets (Map_set m k hs)"
  by (simp add: nonempty_buckets_def Map_get_def Map_set_def update_conv')

lemma nonempty_delete: "nonempty_buckets m \<Longrightarrow> nonempty_buckets (Map_delete m k)"
  by (simp add: nonempty_buckets_def Map_get_def Map_delete_def delete_conv')

lemma nonempty_set_delete: "nonempty_buckets m \<Longrightarrow> nonempty_buckets (Map_delete (Map_set m k hs) k)"
  by (simp add: nonempty_buckets_def Map_get_def Map_delete_def Map_set_def delete_conv' update_conv')

lemma Map_has_set [simp]: "Map_has (Map_set m k v) k"
  by (simp add: Map_has_def Map_set_def update_conv')

lemma emit_nonempty:
  "nonempty_buckets (handlers b) \<Longrightarrow> nonempty_buckets (handlers (fst (snd (emit beh b n d now w))))"
  by (auto simp: emit_def Let_def nonempty_set nonempty_delete nonempty_set_delete
      split: sum.splits prod.splits option.splits)

lemma step_Emit:
  "fst (step beh (b, w) (Emit n d now)) = fst (snd (emit beh b n d now w))"
  "snd (step beh (b, w) (Emit n d now)) = world (snd (snd (emit beh b n d now w)))"
  by (simp_all add: case_prod_beta)

lemma subscribe_record_nonempty:
  "nonempty_buckets (handlers b) \<Longrightarrow> subscribe_record flag b n h p = Inr b' \<Longrightarrow>
   nonempty_buckets (handlers b')"
  by (auto simp: subscribe_record_def Let_def nonempty_set split: sum.splits)

lemma off_nonempty:
  "nonempty_buckets (handlers b) \<Longrightarrow> off b n h = Inr b' \<Longrightarrow> nonempty_buckets (handlers b')"
  by (auto simp: off_def Let_def nonempty_set nonempty_delete
      split: sum.splits option.splits if_splits)

lemma step_nonempty:
  assumes "\<not> isRestore c" and "nonempty_buckets (handlers b)"
  shows "nonempty_buckets (handlers (fst (step beh (b, w) c)))"
proof (cases c)
  case (Emit n d now)
  with emit_nonempty [OF assms(2), of beh n d now w] show ?thesis
    by (simp only: step_Emit)
next
  case (On n h p)
  with subscribe_record_nonempty [OF assms(2), of False n h p] assms(2) show ?thesis
    by (cases "on b n h p") (simp_all add: on_def)
next
  case (Once n h p)
  with subscribe_record_nonempty [OF assms(2), of True n h p] assms(2) show ?thesis
    by (cases "once' b n h p") (simp_all add: once'_def)
next
  case (Off n h)
  with off_nonempty [OF assms(2), of n h] assms(2) show ?thesis
    by (cases "off b n h") simp_all
next
  case Clear
  then show ?thesis
    by (simp add: clear_def nonempty_buckets_def Map_get_def)
qed (use assms in \<open>simp_all add: onAny_def unsubscribeAny_def clearHistory_def Let_def
      split: option.splits\<close>)

lemma run_nonempty:
  assumes "\<forall>c \<in> set cs. \<not> isRestore c"
  shows "nonempty_buckets (handlers (fst (run beh (EventBus_new opts, w) cs)))"
  using assms
proof (induction cs rule: rev_induct)
  case Nil
  show ?case by (simp add: run_def EventBus_new_def nonempty_buckets_def Map_get_def)
next
  case (snoc c cs)
  obtain b' w' where r: "run beh (EventBus_new opts, w) cs = (b', w')"
    by (cases "run beh (EventBus_new opts, w) cs")
  with snoc have "nonempty_buckets (handlers b')" by simp
  with snoc.prems r show ?case
    by (simp add: run_snoc step_nonempty)
qed

lemma listed_bucket:
  "nonempty_buckets (handlers b) \<Longrightarrow> n \<in> set (eventNames b) \<Longrightarrow> bucket b n \<noteq> []"
  by (auto simp: nonempty_buckets_def eventNames_def Map_keys_def Map_get_def bucket_def
      map_of_eq_None_iff split: option.splits)

lemma update_absent: "k \<notin> fst ` set al \<Longrightarrow> AList.update k v al = al @ [(k, v)]"
  by (induction al) auto

lemma fold_update_fresh:
  "distinct (map fst es) \<Longrightarrow> fst ` set acc \<inter> fst ` set es = {} \<Longrightarrow>
   fold (\<lambda>(k, v) obj. AList.update k v obj) es acc = acc @ es"
proof (induction es arbitrary: acc)
  case Nil
  show ?case by simp
next
  case (Cons e es)
  obtain k v where e: "e = (k, v)" by (cases e)
  from Cons.prems e have "k \<notin> fst ` set acc" by auto
  then have u: "AList.update k v acc = acc @ [(k, v)]" by (rule update_absent)
  from Cons.prems e have "fst ` set (acc @ [(k, v)]) \<inter> fst ` set es = {}" by auto
  with Cons.IH [of "acc @ [(k, v)]"] Cons.prems e u show ?case by simp
qed

lemma Object_fromEntries_distinct: "distinct (map fst es) \<Longrightarrow> Object_fromEntries es = es"
  using fold_update_fresh [of es "[]"] by (simp add: Object_fromEntries_def)

lemma set_Object_entries: "set (Object_entries obj) = set obj"
  by (auto simp: Object_entries_def)

lemma restore_fold_keys:
  "fst ` set (fold (\<lambda>(n, c) m. if c > (0::int) then Map_set m n [] else m) es m0) =
   fst ` set m0 \<union> {n. \<exists>c. (n, c) \<in> set es \<and> c > 0}"
proof (induction es arbitrary: m0)
  case Nil
  show ?case by simp
next
  case (Cons e es)
  obtain n c where e: "e = (n, c)" by (cases e)
  show ?case
    unfolding e using Cons.IH [of "if c > 0 then Map_set m0 n [] else m0"]
    by (auto simp: Map_set_def dom_update)
qed

lemma restore_fold_empty:
  "\<forall>k v. map_of m0 k = Some v \<longrightarrow> v = [] \<Longrightarrow>
   \<forall>k v. map_of (fold (\<lambda>(n, c) m. if c > (0::int) then Map_set m n [] else m) es m0) k = Some v
     \<longrightarrow> v = []"
proof (induction es arbitrary: m0)
  case Nil
  then show ?case by simp
next
  case (Cons e es)
  obtain n c where e: "e = (n, c)" by (cases e)
  have "\<forall>k v. map_of (if c > 0 then Map_set m0 n [] else m0) k = Some v \<longrightarrow> v = []"
    using Cons.prems by (simp add: Map_set_def update_conv')
  from Cons.IH [OF this] show ?case
    unfolding e by simp
qed

lemma restore_names:
  assumes "distinct (map fst (handlers b))"
  shows "set (eventNames (restoreFromSnapshot b0 (getSnapshot b))) =
         {n \<in> set (eventNames b). bucket b n \<noteq> []}"
proof -
  let ?es = "map (\<lambda>(ev, hs). (ev, int (length hs))) (handlers b)"
  have fs: "map fst ?es = map fst (handlers b)"
    by (induction "handlers b") (auto simp: case_prod_beta)
  have "distinct (map fst ?es)"
    by (subst fs) (rule assms)
  then have "Object_fromEntries ?es = ?es"
    by (rule Object_fromEntries_distinct)
  then have "set (eventNames (restoreFromSnapshot b0 (getSnapshot b))) =
      {n. \<exists>c. (n, c) \<in> set ?es \<and> c > 0}"
    using restore_fold_keys [of "Object_entries ?es" "[]"]
    by (simp add: restoreFromSnapshot_def getSnapshot_def eventNames_def Map_keys_def clear_def
        Let_def set_Object_entries)
  also have "\<dots> = {n. \<exists>hs. (n, hs) \<in> set (handlers b) \<and> hs \<noteq> []}"
    by force
  also have "\<dots> = {n \<in> set (eventNames b). bucket b n \<noteq> []}"
    using assms
    by (auto simp: eventNames_def Map_keys_def bucket_def Map_get_def split: option.splits
        dest: eq_key_imp_eq_value) (force+)
  finally show ?thesis .
qed

lemma restore_bucket_empty: "bucket (restoreFromSnapshot b0 s) n = []"
  using restore_fold_empty [of "[]" "Object_entries (snap_listenerCounts s)"]
  by (auto simp: restoreFromSnapshot_def clear_def Let_def bucket_def Map_get_def split: option.splits)

lemma restore_fields [simp]:
  "wildcardHandlers (restoreFromSnapshot b0 s) = []"
  "eventHistory (restoreFromSnapshot b0 s) = snap_history s"
  "options (restoreFromSnapshot b0 s) = snap_options s"
  "this_maxHistorySize (restoreFromSnapshot b0 s) = this_maxHistorySize b0"
  "errorHandler (restoreFromSnapshot b0 s) = errorHandler b0"
  by (simp_all add: restoreFromSnapshot_def clear_def Let_def)

lemma emit_no_records:
  "bucket b n = [] \<Longrightarrow> wildcardHandlers b = [] \<Longrightarrow>
   calls (snd (snd (emit beh b n d now w))) = []"
  by (auto simp: emit_def Let_def pass_init_def split: sum.splits)


lemma restore_fold_distinct:
  "distinct (map fst m0) \<Longrightarrow>
   distinct (map fst (fold (\<lambda>(n, c) m. if c > (0::int) then Map_set m n [] else m) es m0))"
proof (induction es arbitrary: m0)
  case Nil
  then show ?case by simp
next
  case (Cons e es)
  obtain n c where e: "e = (n, c)" by (cases e)
  have "distinct (map fst (if c > 0 then Map_set m0 n [] else m0))"
    using Cons.prems by (simp add: Map_set_def distinct_update)
  from Cons.IH [OF this] show ?case
    unfolding e by simp
qed

lemma emit_distinct:
  "distinct (map fst (handlers b)) \<Longrightarrow>
   distinct (map fst (handlers (fst (snd (emit beh b n d now w)))))"
  by (auto simp: emit_def Let_def Map_set_def Map_delete_def distinct_update distinct_delete
      split: sum.splits prod.splits option.splits)


lemma subscribe_record_distinct:
  "distinct (map fst (handlers b)) \<Longrightarrow> subscribe_record flag b n h p = Inr b' \<Longrightarrow>
   distinct (map fst (handlers b'))"
  by (auto simp: subscribe_record_def Let_def Map_set_def distinct_update split: sum.splits)

lemma off_distinct:
  "distinct (map fst (handlers b)) \<Longrightarrow> off b n h = Inr b' \<Longrightarrow> distinct (map fst (handlers b'))"
  by (auto simp: off_def Let_def Map_set_def Map_delete_def distinct_update distinct_delete
      split: sum.splits option.splits if_splits)

lemma step_distinct:
  assumes "distinct (map fst (handlers b))"
  shows "distinct (map fst (handlers (fst (step beh (b, w) c))))"
proof (cases c)
  case (Emit n d now)
  with emit_distinct [OF assms, of beh n d now w] show ?thesis
    by (simp only: step_Emit)
next
  case (RestoreFromSnapshot s)
  with restore_fold_distinct [of "[]" "Object_entries (snap_listenerCounts s)"] show ?thesis
    by (simp add: restoreFromSnapshot_def clear_def Let_def)
next
  case (On n h p)
  with subscribe_record_distinct [OF assms, of False n h p] assms show ?thesis
    by (cases "on b n h p") (simp_all add: on_def)
next
  case (Once n h p)
  with subscribe_record_distinct [OF assms, of True n h p] assms show ?thesis
    by (cases "once' b n h p") (simp_all add: once'_def)
next
  case (Off n h)
  with off_distinct [OF assms, of n h] assms show ?thesis
    by (cases "off b n h") simp_all
next
  case Clear
  then show ?thesis
    by (simp add: clear_def)
qed (use assms in \<open>simp_all add: onAny_def unsubscribeAny_def clearHistory_def Let_def
      split: option.splits\<close>)

lemma run_distinct: "distinct (map fst (handlers (fst (run beh (EventBus_new opts, w) cs))))"
proof (induction cs rule: rev_induct)
  case Nil
  show ?case by (simp add: run_def EventBus_new_def)
next
  case (snoc c cs)
  obtain b' w' where r: "run beh (EventBus_new opts, w) cs = (b', w')"
    by (cases "run beh (EventBus_new opts, w) cs")
  with snoc show ?case
    by (simp add: run_snoc step_distinct)
qed


lemma callsig_simp [simp]: "callsig (h, a, res) = (h, a)"
  by (simp add: callsig_def)

lemma invoke_result:
  assumes "invoke beh b n h a st = (st', r)"
  shows "\<exists>res w'. beh h a b (world st) = (res, w') \<and>
           calls st' = calls st @ [(h, a, res)] \<and>
           onceHandlerIndices st' = onceHandlerIndices st \<and>
           onceWildcardIndices st' = onceWildcardIndices st \<and>
           (if catchErrors (options b)
            then reported st' = reported st @ (case thrown res of Some e \<Rightarrow> [(e, n)] | None \<Rightarrow> []) \<and>
                 r = (case thrown res of
                        Some e \<Rightarrow> map_option CallbackError (fst (errorHandler b e n w'))
                      | None \<Rightarrow> None) \<and>
                 world st' = (case thrown res of
                                Some e \<Rightarrow> snd (errorHandler b e n w')
                              | None \<Rightarrow> w')
            else r = map_option HandlerError (thrown res) \<and> reported st' = reported st \<and>
                 world st' = w')"
proof -
  obtain res w' where bw: "beh h a b (world st) = (res, w')"
    by (cases "beh h a b (world st)")
  have "calls st' = calls st @ [(h, a, res)] \<and>
           onceHandlerIndices st' = onceHandlerIndices st \<and>
           onceWildcardIndices st' = onceWildcardIndices st \<and>
           (if catchErrors (options b)
            then reported st' = reported st @ (case thrown res of Some e \<Rightarrow> [(e, n)] | None \<Rightarrow> []) \<and>
                 r = (case thrown res of
                        Some e \<Rightarrow> map_option CallbackError (fst (errorHandler b e n w'))
                      | None \<Rightarrow> None) \<and>
                 world st' = (case thrown res of
                                Some e \<Rightarrow> snd (errorHandler b e n w')
                              | None \<Rightarrow> w')
            else r = map_option HandlerError (thrown res) \<and> reported st' = reported st \<and>
                 world st' = w')"
  proof (cases res)
    case Returned
    with assms bw show ?thesis
      by (auto simp: invoke_def Let_def)
  next
    case (ReturnedPromise p)
    with assms bw show ?thesis
      by (auto simp: invoke_def Let_def)
  next
    case (Threw err)
    with assms bw show ?thesis
      by (auto simp: invoke_def Let_def case_prod_beta)
  qed
  with bw show ?thesis by blast
qed

lemma runHandlers_Cons:
  "runHandlers beh b n d live (x # rs) st =
     (case invoke beh b n (handler x) (Data d)
             (if once x
              then (case findIndex (\<lambda>h. handler h = handler x) live of
                      Some i \<Rightarrow> st\<lparr>onceHandlerIndices := onceHandlerIndices st @ [i]\<rparr>
                    | None \<Rightarrow> st)
              else st) of
        (st2, Some err) \<Rightarrow> (st2, Some err)
      | (st2, None) \<Rightarrow> runHandlers beh b n d live rs st2)"
  by (simp add: Let_def)

lemma runWildcardHandlers_Cons:
  "passesFilter x n d = Inr True \<Longrightarrow>
   runWildcardHandlers beh b n d live (x # rs) st =
     (case invoke beh b n (handler x) (EventData n d)
             (if once x
              then (case findIndex (\<lambda>h. handler h = handler x) live of
                      Some i \<Rightarrow> st\<lparr>onceWildcardIndices := onceWildcardIndices st @ [i]\<rparr>
                    | None \<Rightarrow> st)
              else st) of
        (st2, Some err) \<Rightarrow> (st2, Some err)
      | (st2, None) \<Rightarrow> runWildcardHandlers beh b n d live rs st2)"
  by (simp add: Let_def)

lemma passesFilter_cases:
  obtains (throws) err where "passesFilter x n d = Inl err"
  | (skip) "passesFilter x n d = Inr False"
  | (pass) "passesFilter x n d = Inr True"
  by (cases "passesFilter x n d") auto



lemma emit_runPass:
  assumes "validateEventName n = Inr ()"
    and "\<not> (\<not> allowEmptyEvents (options b) \<and> bucket b n = [] \<and> wildcardHandlers b = [])"
    and "runPass beh (recordEvent b n d now) n d w = (st, r)"
  shows "snd (snd (emit beh b n d now w)) = st \<and>
         (case r of
            Some err \<Rightarrow> emit beh b n d now w = (Inl err, recordEvent b n d now, st)
          | None \<Rightarrow> \<exists>v. fst (emit beh b n d now w) = Inr v)"
proof -
  let ?b1 = "recordEvent b n d now"
  obtain st1 r1 where h: "runHandlers beh ?b1 n d (bucket b n) (bucket b n) (pass_init w) = (st1, r1)"
    by (cases "runHandlers beh ?b1 n d (bucket b n) (bucket b n) (pass_init w)")
  show ?thesis
  proof (cases r1)
    case (Some e)
    with assms(3) h have "st = st1" "r = Some e"
      by (simp_all add: runPass_def)
    with assms(1) h Some show ?thesis
      by (simp add: assms(2) emit_def Let_def)
  next
    case None
    with assms(3) h
    have w: "runWildcardHandlers beh ?b1 n d (wildcardHandlers b) (wildcardHandlers b) st1 = (st, r)"
      by (simp add: runPass_def)
    with assms(1) h None show ?thesis
      by (cases r) (simp_all add: assms(2) emit_def Let_def)
  qed
qed

lemma emit_guarded:
  assumes "validateEventName n = Inr ()"
    and "\<not> allowEmptyEvents (options b) \<and> bucket b n = [] \<and> wildcardHandlers b = []"
  shows "emit beh b n d now w = (Inl (NoSubscribers n), recordEvent b n d now, pass_init w)"
  using assms by (simp add: emit_def Let_def)


lemma invoke_abort:
  assumes "invoke beh b n h a st = (st', Some e)"
  shows "(\<exists>x. e = HandlerError x \<and> \<not> catchErrors (options b)) \<or>
         (\<exists>x. e = CallbackError x \<and> catchErrors (options b) \<and> \<not> errorHandler_returns b n)"
proof -
  from invoke_result [OF assms] obtain res w' where
    r: "if catchErrors (options b)
        then Some e = (case thrown res of
                         Some e' \<Rightarrow> map_option CallbackError (fst (errorHandler b e' n w'))
                       | None \<Rightarrow> None)
        else Some e = map_option HandlerError (thrown res)"
    by metis
  show ?thesis
  proof (cases "catchErrors (options b)")
    case True
    with r obtain e' where e': "thrown res = Some e'"
      "Some e = map_option CallbackError (fst (errorHandler b e' n w'))"
      by (cases "thrown res") auto
    then obtain x where "fst (errorHandler b e' n w') = Some x" "e = CallbackError x"
      by (cases "fst (errorHandler b e' n w')") auto
    with True show ?thesis
      by (auto simp: errorHandler_returns_def)
  next
    case False
    with r show ?thesis by (cases "thrown res") auto
  qed
qed

lemma runHandlers_abort:
  "runHandlers beh b n d live rs st = (st', Some e) \<Longrightarrow>
   (\<exists>x. e = HandlerError x \<and> \<not> catchErrors (options b)) \<or>
   (\<exists>x. e = CallbackError x \<and> catchErrors (options b) \<and> \<not> errorHandler_returns b n)"
proof (induction rs arbitrary: st)
  case Nil
  then show ?case by simp
next
  case (Cons x rs)
  define st1 where "st1 = (if once x
                 then (case findIndex (\<lambda>h. handler h = handler x) live of
                         Some i \<Rightarrow> st\<lparr>onceHandlerIndices := onceHandlerIndices st @ [i]\<rparr>
                       | None \<Rightarrow> st)
                 else st)"
  obtain st2 r2 where inv: "invoke beh b n (handler x) (Data d) st1 = (st2, r2)"
    by (cases "invoke beh b n (handler x) (Data d) st1")
  show ?case
  proof (cases r2)
    case None
    with Cons.prems inv have "runHandlers beh b n d live rs st2 = (st', Some e)"
      by (simp add: runHandlers_Cons st1_def [symmetric])
    then show ?thesis by (rule Cons.IH)
  next
    case (Some e2)
    with Cons.prems inv have "e = e2"
      by (simp add: runHandlers_Cons st1_def [symmetric])
    with inv Some show ?thesis
      by (auto dest: invoke_abort)
  qed
qed

lemma runWildcardHandlers_abort:
  "runWildcardHandlers beh b n d live rs st = (st', Some e) \<Longrightarrow>
   (\<exists>x. e = HandlerError x \<and> \<not> catchErrors (options b)) \<or>
   (\<exists>x. e = CallbackError x \<and>
        ((catchErrors (options b) \<and> \<not> errorHandler_returns b n) \<or>
         (\<exists>r \<in> set rs. passesFilter r n d = Inl x)))"
proof (induction rs arbitrary: st)
  case Nil
  then show ?case by simp
next
  case (Cons x rs)
  show ?case
  proof (cases x n d rule: passesFilter_cases)
    case (throws err)
    with Cons.prems show ?thesis by auto
  next
    case skip
    with Cons.prems have "runWildcardHandlers beh b n d live rs st = (st', Some e)"
      by simp
    from Cons.IH [OF this] show ?thesis by auto
  next
    case pass
    define st1 where "st1 = (if once x
                   then (case findIndex (\<lambda>h. handler h = handler x) live of
                           Some i \<Rightarrow> st\<lparr>onceWildcardIndices := onceWildcardIndices st @ [i]\<rparr>
                         | None \<Rightarrow> st)
                   else st)"
    obtain st2 r2 where inv: "invoke beh b n (handler x) (EventData n d) st1 = (st2, r2)"
      by (cases "invoke beh b n (handler x) (EventData n d) st1")
    show ?thesis
    proof (cases r2)
      case None
      with Cons.prems inv pass have "runWildcardHandlers beh b n d live rs st2 = (st', Some e)"
        by (simp add: runWildcardHandlers_Cons st1_def [symmetric])
      from Cons.IH [OF this] show ?thesis by auto
    next
      case (Some e2)
      with Cons.prems inv pass have "e = e2"
        by (simp add: runWildcardHandlers_Cons st1_def [symmetric])
      with inv Some show ?thesis
        by (auto dest: invoke_abort)
    qed
  qed
qed

lemma runPass_abort:
  assumes "runPass beh b n d w = (st, Some e)"
  shows "(\<exists>x. e = HandlerError x \<and> \<not> catchErrors (options b)) \<or>
         (\<exists>x. e = CallbackError x \<and>
              ((catchErrors (options b) \<and> \<not> errorHandler_returns b n) \<or>
               \<not> filters_return b n d))"
proof -
  obtain st1 r1 where h: "runHandlers beh b n d (bucket b n) (bucket b n) (pass_init w) = (st1, r1)"
    by (cases "runHandlers beh b n d (bucket b n) (bucket b n) (pass_init w)")
  show ?thesis
  proof (cases r1)
    case (Some e1)
    with assms h have "e = e1"
      by (simp add: runPass_def)
    with h Some show ?thesis
      by (auto dest: runHandlers_abort)
  next
    case None
    with assms h
    have "runWildcardHandlers beh b n d (wildcardHandlers b) (wildcardHandlers b) st1 = (st, Some e)"
      by (simp add: runPass_def)
    from runWildcardHandlers_abort [OF this] show ?thesis
      by (auto simp: filters_return_def)
  qed
qed














lemma returns_recordEvent [simp]:
  "errorHandler_returns (recordEvent b n d now) m = errorHandler_returns b m"
  "filters_return (recordEvent b n d now) m e = filters_return b m e"
  by (simp_all add: errorHandler_returns_def filters_return_def)






lemma matching_recordEvent [simp]: "matching (recordEvent b n d now) m e = matching b m e"
  by (simp add: matching_def)








lemma bucket_Map_set [simp]:
  "bucket (b\<lparr>handlers := Map_set (handlers b) k v\<rparr>) n = (if n = k then v else bucket b n)"
  by (simp add: bucket_def Map_get_def Map_set_def update_conv')

lemma bucket_Map_delete [simp]:
  "bucket (b\<lparr>handlers := Map_delete (handlers b) k\<rparr>) n = (if n = k then [] else bucket b n)"
  by (simp add: bucket_def Map_get_def Map_delete_def delete_conv')




lemma priority_value_inj [simp]: "priority_value p = priority_value q \<longleftrightarrow> p = q"
  by (cases p; cases q) simp_all













section \<open>The properties\<close>

text \<open>
  C10. \<open>hasListeners(name)\<close> is true as soon as one wildcard record exists, whatever the
  named bucket holds and whatever the wildcard filters say: on the bus with one wildcard
  handler behind a filter that rejects every event, \<open>hasListeners\<close> is true,
  \<open>listenerCount\<close> is 0 and an emit calls no handler.
\<close>

theorem hasListeners_wildcard:
  "(validateEventName n = Inr () \<and> wildcardHandlers b \<noteq> [] \<longrightarrow> hasListeners b n = Inr True) \<and>
   hasListeners filtered_bus ''x'' = Inr True \<and>
   listenerCount filtered_bus ''x'' = Inr 0 \<and>
   calls (snd (snd (emit quiet filtered_bus ''x'' 0 0 ()))) = []"
proof -
  have "validateEventName n = Inr () \<and> wildcardHandlers b \<noteq> [] \<longrightarrow> hasListeners b n = Inr True"
    by (simp add: hasListeners_def)
  moreover have "hasListeners filtered_bus ''x'' = Inr True"
    by (simp add: eval_defs filtered_bus_def quiet_def rejecting_def)
  moreover have "listenerCount filtered_bus ''x'' = Inr 0"
    by (simp add: eval_defs filtered_bus_def quiet_def rejecting_def)
  moreover have "calls (snd (snd (emit quiet filtered_bus ''x'' 0 0 ()))) = []"
    by (simp add: eval_defs filtered_bus_def quiet_def rejecting_def)
  ultimately show ?thesis by blast
qed

theorem hasListeners_wildcard_witness:
  "validateEventName ''x'' = Inr () \<and> wildcardHandlers filtered_bus \<noteq> [] \<and>
   hasListeners filtered_bus ''x'' = Inr True"
proof -
  have v: "validateEventName ''x'' = Inr ()"
    by (simp add: eval_defs)
  have w: "wildcardHandlers filtered_bus \<noteq> []"
    by (simp add: eval_defs filtered_bus_def quiet_def rejecting_def)
  from v w hasListeners_wildcard [of "''x''" filtered_bus] show ?thesis by blast
qed

text \<open>
  C1, as the source has it. The test before the loops looks at the two lists, not at the
  filters: \<open>emit\<close> fails with the error for an event without subscribers exactly when
  the name is valid, \<open>allowEmptyEvents\<close> is false, the named bucket is empty and there is
  no wildcard record at all. When no record matches (the bucket is empty and every
  wildcard filter rejects the event) and either \<open>allowEmptyEvents\<close> is true or some
  wildcard record exists, \<open>emit\<close> returns normally and calls no handler.
\<close>

theorem emit_NoSubscribers_iff:
  "(fst (emit beh b n d now w) = Inl (NoSubscribers m) \<longleftrightarrow>
      validateEventName n = Inr () \<and> m = n \<and> \<not> allowEmptyEvents (options b) \<and>
      bucket b n = [] \<and> wildcardHandlers b = []) \<and>
   (validateEventName n = Inr () \<and> matching b n d = [] \<and>
    (allowEmptyEvents (options b) \<or> wildcardHandlers b \<noteq> []) \<longrightarrow>
      fst (emit beh b n d now w) = Inr None \<and> calls (snd (snd (emit beh b n d now w))) = [])"
proof -
  have "fst (emit beh b n d now w) = Inl (NoSubscribers m) \<longleftrightarrow>
      validateEventName n = Inr () \<and> m = n \<and> \<not> allowEmptyEvents (options b) \<and>
      bucket b n = [] \<and> wildcardHandlers b = []"
  proof (cases "validateEventName n = Inr ()")
    case False
    with validateEventName_cases [of n] have "validateEventName n = Inl InvalidArgument"
      by simp
    from emit_invalid [OF this, of beh b d now w] False show ?thesis
      by simp
  next
    case v: True
    show ?thesis
    proof (cases "\<not> allowEmptyEvents (options b) \<and> bucket b n = [] \<and> wildcardHandlers b = []")
      case True
      from emit_guarded [OF v True, of beh d now w] v True show ?thesis
        by auto
    next
      case False
      obtain st r where p: "runPass beh (recordEvent b n d now) n d w = (st, r)"
        by (cases "runPass beh (recordEvent b n d now) n d w")
      have "fst (emit beh b n d now w) \<noteq> Inl (NoSubscribers m)"
      proof (cases r)
        case None
        with emit_runPass [OF v False p] show ?thesis by auto
      next
        case (Some err)
        with emit_runPass [OF v False p] have "fst (emit beh b n d now w) = Inl err"
          by simp
        moreover from runPass_abort [of beh "recordEvent b n d now" n d w st err] p Some
        have "err \<noteq> NoSubscribers m" by auto
        ultimately show ?thesis by simp
      qed
      with False show ?thesis by blast
    qed
  qed
  moreover have "fst (emit beh b n d now w) = Inr None \<and>
      calls (snd (snd (emit beh b n d now w))) = []"
    if v: "validateEventName n = Inr ()" and m: "matching b n d = []"
      and a: "allowEmptyEvents (options b) \<or> wildcardHandlers b \<noteq> []"
  proof -
    from m have bk: "bucket b n = []"
      and np: "\<forall>r \<in> set (wildcardHandlers b). passesFilter r n d = Inr False"
      by (simp_all add: matching_def filter_empty_conv)
    have "runWildcardHandlers beh (recordEvent b n d now) n d
            (wildcardHandlers b) (wildcardHandlers b) (pass_init w) = (pass_init w, None)"
      using np by (rule runWildcardHandlers_none_pass)
    with v bk a show ?thesis
      by (auto simp: emit_def Let_def pass_init_def removeIndices_def)
  qed
  ultimately show ?thesis by blast
qed

theorem emit_NoSubscribers_iff_witness:
  "validateEventName ''x'' = Inr () \<and> \<not> allowEmptyEvents (options strict_bus) \<and>
   bucket strict_bus ''x'' = [] \<and> wildcardHandlers strict_bus = [] \<and>
   fst (emit quiet strict_bus ''x'' 0 0 ()) = Inl (NoSubscribers ''x'') \<and>
   matching filtered_bus ''x'' 0 = [] \<and> allowEmptyEvents (options filtered_bus) \<and>
   fst (emit quiet filtered_bus ''x'' 0 0 ()) = Inr None"
proof -
  have 1: "validateEventName ''x'' = Inr ()"
    by (simp add: eval_defs)
  have 2: "\<not> allowEmptyEvents (options strict_bus) \<and> bucket strict_bus ''x'' = [] \<and>
           wildcardHandlers strict_bus = []"
    by (simp add: eval_defs strict_bus_def filtered_bus_def strict_filtered_bus_def quiet_def rejecting_def)
  have 3: "matching filtered_bus ''x'' 0 = [] \<and> allowEmptyEvents (options filtered_bus)"
    by (simp add: eval_defs strict_bus_def filtered_bus_def strict_filtered_bus_def quiet_def rejecting_def)
  from 1 2 3
    emit_NoSubscribers_iff [of quiet strict_bus "''x''" 0 0 "()" "''x''"]
    emit_NoSubscribers_iff [of quiet filtered_bus "''x''" 0 0 "()" "''x''"]
  show ?thesis by blast
qed

text \<open>
  C1 as it is written fails: with \<open>allowEmptyEvents\<close> false and one wildcard record
  whose filter rejects the event, no record matches, and \<open>emit\<close> returns normally.
\<close>

theorem emit_NoSubscribers_counterexample:
  "\<not> allowEmptyEvents (options strict_filtered_bus) \<and> validateEventName ''x'' = Inr () \<and>
   matching strict_filtered_bus ''x'' 0 = [] \<and>
   fst (emit quiet strict_filtered_bus ''x'' 0 0 ()) = Inr None"
  by (simp add: eval_defs strict_bus_def filtered_bus_def strict_filtered_bus_def quiet_def rejecting_def)




text \<open>
  C8, as the source has it. On a bus built with a bound of at least 1 (the default is
  1000) and used through any calls other than \<open>restoreFromSnapshot\<close>, the history never
  holds more than \<open>maxHistorySize\<close> entries, and it is exactly the most recent
  \<open>maxHistorySize\<close> entries recorded since the last \<open>clearHistory\<close>, oldest first
  (all of them while they are fewer): every overflow drops the single oldest entry.
\<close>

theorem history_bounded:
  assumes "\<forall>c \<in> set cs. \<not> isRestore c"
    and "1 \<le> maxHistorySize (EventBus_options opts)"
  shows "int (length (getHistory (fst (run beh (EventBus_new opts, w) cs))))
           \<le> maxHistorySize (options (fst (run beh (EventBus_new opts, w) cs))) \<and>
         getHistory (fst (run beh (EventBus_new opts, w) cs)) =
           most_recent (nat (maxHistorySize (options (fst (run beh (EventBus_new opts, w) cs)))))
             (recorded cs) \<and>
         (nat (maxHistorySize (options (fst (run beh (EventBus_new opts, w) cs))))
            \<le> length (recorded cs) \<longrightarrow>
          int (length (getHistory (fst (run beh (EventBus_new opts, w) cs)))) =
            maxHistorySize (options (fst (run beh (EventBus_new opts, w) cs))))"
proof -
  let ?b = "fst (run beh (EventBus_new opts, w) cs)"
  let ?M = "maxHistorySize (EventBus_options opts)"
  from history_invariant [OF assms, of beh w]
  have o: "options ?b = EventBus_options opts"
    and h: "eventHistory ?b = most_recent (nat ?M) (recorded cs)"
    by simp_all
  have "length (most_recent (nat ?M) (recorded cs)) = min (nat ?M) (length (recorded cs))"
    by (simp add: most_recent_def)
  with o h assms(2) show ?thesis
    by (simp add: getHistory_def)
qed

theorem history_bounded_witness:
  "1 \<le> maxHistorySize (EventBus_options (bound 3)) \<and>
   getHistory (fst (run quiet (EventBus_new (bound 3), ())
     [Emit ''event1'' 1 10, Emit ''event2'' 2 20, Emit ''event3'' 3 30, Emit ''event4'' 4 40])) =
     [\<lparr>event = ''event2'', data = 2, timestamp = 20\<rparr>,
      \<lparr>event = ''event3'', data = 3, timestamp = 30\<rparr>,
      \<lparr>event = ''event4'', data = 4, timestamp = 40\<rparr>]"
proof -
  let ?cs = "[Emit ''event1'' (1::nat) 10, Emit ''event2'' 2 20, Emit ''event3'' 3 30,
              Emit ''event4'' 4 40] :: (nat, unit) call list"
  have 1: "\<forall>c \<in> set ?cs. \<not> isRestore c"
    by simp
  have 2: "1 \<le> maxHistorySize (EventBus_options (bound 3))"
    by (simp add: EventBus_options_def bound_def no_options_def)
  have 3: "maxHistorySize (options (fst (run quiet (EventBus_new (bound 3), ()) ?cs))) = 3"
    by (simp add: eval_defs bound_def first_bus_def second_bus_def third_bus_def negative_bus_def quiet_def)
  have 4: "most_recent 3 (recorded ?cs) =
     [\<lparr>event = ''event2'', data = 2, timestamp = 20\<rparr>,
      \<lparr>event = ''event3'', data = 3, timestamp = 30\<rparr>,
      \<lparr>event = ''event4'', data = 4, timestamp = 40\<rparr>]"
    by (simp add: recorded_def most_recent_def validateEventName_def trim_def isWhiteSpace_def)
  from history_bounded [OF 1 2, of quiet "()"] 2 3 4 show ?thesis
    by simp
qed

text \<open>
  C8 as it is written fails in two ways. \<open>restoreFromSnapshot\<close> installs the history
  of the snapshot as it is and leaves the bound of the bus alone: the third of the three
  example buses, built with the bound 1, holds two entries after restoring, and its
  options say 1 as well. And a negative bound is below the length of every history.
\<close>

theorem history_bounded_counterexample:
  "int (length (getHistory third_bus)) = 2 \<and> maxHistorySize (options third_bus) = 1 \<and>
   this_maxHistorySize third_bus = 1 \<and>
   int (length (getHistory (fst (run quiet (negative_bus, ()) [Emit ''a'' 0 0])))) = 0 \<and>
   maxHistorySize (options (fst (run quiet (negative_bus, ()) [Emit ''a'' 0 0]))) = - 1"
  by (simp add: eval_defs bound_def first_bus_def second_bus_def third_bus_def negative_bus_def quiet_def)

text \<open>
  C7, as the source has it. On a bus used through any calls other than
  \<open>restoreFromSnapshot\<close>, every name \<open>eventNames\<close> lists has a bucket with at least
  one record: \<open>off\<close> and the pruning of once records in \<open>emit\<close> delete the key of a
  bucket they empty.
\<close>

theorem listed_names_have_records:
  assumes "\<forall>c \<in> set cs. \<not> isRestore c"
  shows "\<forall>n \<in> set (eventNames (fst (run beh (EventBus_new opts, w) cs))).
           bucket (fst (run beh (EventBus_new opts, w) cs)) n \<noteq> []"
  using run_nonempty [OF assms, of beh opts w] by (simp add: listed_bucket)

theorem listed_names_have_records_witness:
  "eventNames (fst (run quiet (EventBus_new no_options, ())
     [On ''a'' 1 Normal, Once ''b'' 2 High, Emit ''b'' 0 0])) = [''a''] \<and>
   bucket (fst (run quiet (EventBus_new no_options, ())
     [On ''a'' 1 Normal, Once ''b'' 2 High, Emit ''b'' 0 0])) ''a'' \<noteq> []"
proof -
  let ?cs = "[On ''a'' 1 Normal, Once ''b'' 2 High, Emit ''b'' (0::nat) 0] :: (nat, unit) call list"
  have 1: "\<forall>c \<in> set ?cs. \<not> isRestore c"
    by simp
  have 2: "eventNames (fst (run quiet (EventBus_new no_options, ()) ?cs)) = [''a'']"
    by (simp add: eval_defs subscribed_bus_def restored_bus_def quiet_def)
  from listed_names_have_records [OF 1, of quiet no_options "()"] 2 show ?thesis
    by simp
qed

text \<open>
  C7 as it is written fails: \<open>restoreFromSnapshot\<close> creates an empty bucket for every
  name the snapshot counts listeners for, so the restored bus lists the name \<open>a\<close> and
  has no record for it.
\<close>

theorem listed_names_have_records_counterexample:
  "eventNames restored_bus = [''a''] \<and> bucket restored_bus ''a'' = [] \<and>
   listenerCount restored_bus ''a'' = Inr 0"
  by (simp add: eval_defs subscribed_bus_def restored_bus_def quiet_def)

text \<open>
  C6. Take the snapshot of a bus (reached by any calls) and restore it on a newly built
  bus. The names the restored bus lists are exactly the names of the original that have
  at least one record, which are all its names unless the original was itself restored;
  the history is the original's, entry for entry; and an emit of any name on the restored
  bus calls no handler.
\<close>

theorem snapshot_round_trip:
  assumes "b = fst (run beh (EventBus_new opts, w) cs)"
    and "r = restoreFromSnapshot (EventBus_new opts') (getSnapshot b)"
  shows "set (eventNames r) = {n \<in> set (eventNames b). bucket b n \<noteq> []} \<and>
         ((\<forall>c \<in> set cs. \<not> isRestore c) \<longrightarrow> set (eventNames r) = set (eventNames b)) \<and>
         getHistory r = getHistory b \<and>
         calls (snd (snd (emit beh' r n d now w'))) = []"
proof -
  have d: "distinct (map fst (handlers b))"
    unfolding assms(1) by (rule run_distinct)
  have 1: "set (eventNames r) = {n \<in> set (eventNames b). bucket b n \<noteq> []}"
    unfolding assms(2) using d by (rule restore_names)
  have 2: "set (eventNames r) = set (eventNames b)" if "\<forall>c \<in> set cs. \<not> isRestore c"
  proof -
    from that have "nonempty_buckets (handlers b)"
      unfolding assms(1) by (rule run_nonempty)
    then have "\<forall>n \<in> set (eventNames b). bucket b n \<noteq> []"
      by (simp add: listed_bucket)
    then have "{n \<in> set (eventNames b). bucket b n \<noteq> []} = set (eventNames b)"
      by blast
    with 1 show ?thesis by (rule trans)
  qed
  have 3: "getHistory r = getHistory b"
    by (simp add: assms(2) getHistory_def getSnapshot_def)
  have 4: "calls (snd (snd (emit beh' r n d now w'))) = []"
    unfolding assms(2) by (rule emit_no_records) (simp_all add: restore_bucket_empty)
  from 1 2 3 4 show ?thesis by blast
qed

theorem snapshot_round_trip_witness:
  "eventNames (restoreFromSnapshot (EventBus_new no_options)
      (getSnapshot (fst (run quiet (EventBus_new no_options, ())
         [On ''test1'' 1 Normal, On ''test2'' 2 Normal, Emit ''test1'' (1::nat) 5])))) =
     [''test1'', ''test2''] \<and>
   getHistory (restoreFromSnapshot (EventBus_new no_options)
      (getSnapshot (fst (run quiet (EventBus_new no_options, ())
         [On ''test1'' 1 Normal, On ''test2'' 2 Normal, Emit ''test1'' (1::nat) 5])))) =
     [\<lparr>event = ''test1'', data = 1, timestamp = 5\<rparr>] \<and>
   calls (snd (snd (emit quiet (restoreFromSnapshot (EventBus_new no_options)
      (getSnapshot (fst (run quiet (EventBus_new no_options, ())
         [On ''test1'' 1 Normal, On ''test2'' 2 Normal, Emit ''test1'' (1::nat) 5]))))
      ''test1'' 1 6 ()))) = []"
proof -
  let ?b = "fst (run quiet (EventBus_new no_options, ())
         [On ''test1'' 1 Normal, On ''test2'' 2 Normal, Emit ''test1'' (1::nat) 5])"
  let ?r = "restoreFromSnapshot (EventBus_new no_options) (getSnapshot ?b) :: (nat, unit) EventBus"
  have 1: "eventNames ?r = [''test1'', ''test2'']"
    by (simp add: eval_defs quiet_def)
  have 2: "getHistory ?b = [\<lparr>event = ''test1'', data = 1, timestamp = 5\<rparr>]"
    by (simp add: eval_defs quiet_def)
  note t = snapshot_round_trip [where b = ?b and beh = quiet and opts = no_options
      and w = "()" and r = ?r and opts' = no_options and beh' = quiet and n = "''test1''"
      and d = 1 and now = 6 and w' = "()"]
  have 3: "getHistory ?r = getHistory ?b"
    and 4: "calls (snd (snd (emit quiet ?r ''test1'' 1 6 ()))) = []"
    using t [OF refl refl] by (rule conjunct1 [OF conjunct2 [OF conjunct2]],
        rule conjunct2 [OF conjunct2 [OF conjunct2]])
  from 3 2 have 5: "getHistory ?r = [\<lparr>event = ''test1'', data = 1, timestamp = 5\<rparr>]"
    by (rule trans)
  from 1 5 4 show ?thesis by (intro conjI)
qed






text \<open>
  C2 fails on the code. \<open>emit\<close> looks a once record up in the bucket by its handler
  function and removes the first record with that function. On the bus where one
  function is subscribed with \<open>on\<close> (Critical) and with \<open>once\<close> (Normal), the first
  emit calls both records and then removes the \<open>on\<close> record; the once record stays, and
  the second emit calls it again.
\<close>

theorem once_record_called_twice:
  "bucket shared_bus ''x'' =
     [\<lparr>handler = 1, priority = Critical, once = False\<rparr>,
      \<lparr>handler = 1, priority = Normal, once = True\<rparr>] \<and>
   invoked (snd (snd (emit quiet shared_bus ''x'' 0 0 ()))) = [1, 1] \<and>
   bucket (fst (snd (emit quiet shared_bus ''x'' 0 0 ()))) ''x'' =
     [\<lparr>handler = 1, priority = Normal, once = True\<rparr>] \<and>
   invoked (snd (snd (emit quiet (fst (snd (emit quiet shared_bus ''x'' 0 0 ()))) ''x'' 0 1 ()))) = [1]"
  by (simp add: eval_defs shared_bus_def quiet_def)

text \<open>
  C5 fails on the code. The once records are removed after the two loops, and a rethrow
  leaves \<open>emit\<close> inside a loop. With \<open>catchErrors\<close> unset, a once handler and then a
  handler that throws: the emit calls both and fails with the thrown error, its history
  entry stands, the once record is still in the bucket, and the next emit calls it again.
\<close>

theorem once_record_survives_abort:
  "fst (emit faulty abort_bus ''x'' 0 0 ()) = Inl (HandlerError ''boom'') \<and>
   invoked (snd (snd (emit faulty abort_bus ''x'' 0 0 ()))) = [1, 2] \<and>
   getHistory (fst (snd (emit faulty abort_bus ''x'' 0 0 ()))) =
     [\<lparr>event = ''x'', data = 0, timestamp = 0\<rparr>] \<and>
   bucket (fst (snd (emit faulty abort_bus ''x'' 0 0 ()))) ''x'' =
     [\<lparr>handler = 1, priority = High, once = True\<rparr>,
      \<lparr>handler = 2, priority = Normal, once = False\<rparr>] \<and>
   invoked (snd (snd (emit faulty (fst (snd (emit faulty abort_bus ''x'' 0 0 ()))) ''x'' 0 1 ()))) =
     [1, 2]"
  by (simp add: eval_defs abort_bus_def faulty_def)

end
